theory Spec2Isabelle
  imports Main "HOL-Library.Word"
begin

section \<open>Package constants and error values\<close>

text \<open>
  The package \<open>mongoutils\<close> is a thin layer over the \<open>mgo\<close> driver. The repository holds
  several revisions of the one file \<open>mongoutils.go\<close>; the identifier functions and \<open>Limit\<close>
  are the same in all of them. \<open>Sort\<close> returns one string in the earlier revisions and a
  list of strings, split at the commas, in the last one; both bodies are embedded below,
  and the claims about \<open>Sort\<close> are settled on the last.

  A Go \<open>string\<close> is a sequence of bytes and \<open>len\<close> counts bytes, which is what the HOL type
  \<open>string\<close> (a list of 8-bit characters) is.
\<close>

definition ID_LENGTH :: nat where
  "ID_LENGTH = 24"

definition LIMIT_DEFAULT_VALUE :: int where
  "LIMIT_DEFAULT_VALUE = 5"

definition LIMIT_RETURN_ALL :: int where
  "LIMIT_RETURN_ALL = 0"

definition SORT_DEFAULT :: string where
  "SORT_DEFAULT = ''_id''"

datatype error = ErrIdBadLength | ErrIdNotHex | ErrNoResults


section \<open>The library functions the package calls\<close>

subsection \<open>encoding/hex\<close>

text \<open>
  The Go standard library's \<open>hex.DecodeString\<close> and \<open>hex.EncodeToString\<close>, which the
  \<open>bson\<close> package uses for identifiers. \<open>fromHexChar\<close> accepts the digits and the letters
  a to f in either case; \<open>Decode\<close> walks the input two characters at a time and reports
  the first invalid byte, or an odd length.
\<close>

definition hextable :: string where
  "hextable = ''0123456789abcdef''"

definition fromHexChar :: "char \<Rightarrow> nat option" where
  "fromHexChar c =
     (let n = (of_char c :: nat) in
      if of_char CHR ''0'' \<le> n \<and> n \<le> of_char CHR ''9'' then Some (n - of_char CHR ''0'')
      else if of_char CHR ''a'' \<le> n \<and> n \<le> of_char CHR ''f'' then Some (n - of_char CHR ''a'' + 10)
      else if of_char CHR ''A'' \<le> n \<and> n \<le> of_char CHR ''F'' then Some (n - of_char CHR ''A'' + 10)
      else None)"

datatype hex_error = ErrLength | InvalidByteError char

fun DecodeString :: "string \<Rightarrow> hex_error + string" where
  "DecodeString [] = Inr []"
| "DecodeString [p] =
     (case fromHexChar p of None \<Rightarrow> Inl (InvalidByteError p) | Some a \<Rightarrow> Inl ErrLength)"
| "DecodeString (p # q # rest) =
     (case fromHexChar p of
        None \<Rightarrow> Inl (InvalidByteError p)
      | Some a \<Rightarrow>
          (case fromHexChar q of
             None \<Rightarrow> Inl (InvalidByteError q)
           | Some b \<Rightarrow>
               (case DecodeString rest of
                  Inl e \<Rightarrow> Inl e
                | Inr d \<Rightarrow> Inr (char_of (a * 16 + b) # d))))"

fun EncodeToString :: "string \<Rightarrow> string" where
  "EncodeToString [] = []"
| "EncodeToString (v # src) =
     hextable ! ((of_char v :: nat) div 16) # hextable ! ((of_char v :: nat) mod 16)
       # EncodeToString src"

subsection \<open>gopkg.in/mgo.v2/bson\<close>

text \<open>
  \<open>bson.ObjectId\<close> is declared as a Go string holding the raw bytes of the identifier.
  \<open>IsObjectIdHex\<close> asks for 24 characters that decode as hexadecimal; \<open>ObjectIdHex\<close>
  panics (here \<open>None\<close>) on anything else; \<open>Hex\<close> is the lowercase hexadecimal rendering.
\<close>

type_synonym ObjectId = string

definition IsObjectIdHex :: "string \<Rightarrow> bool" where
  "IsObjectIdHex s =
     (if length s \<noteq> 24 then False
      else (case DecodeString s of Inl e \<Rightarrow> False | Inr d \<Rightarrow> True))"

definition ObjectIdHex :: "string \<Rightarrow> ObjectId option" where
  "ObjectIdHex s =
     (case DecodeString s of
        Inl e \<Rightarrow> None
      | Inr d \<Rightarrow> if length d \<noteq> 12 then None else Some d)"

definition Hex :: "ObjectId \<Rightarrow> string" where
  "Hex oid = EncodeToString oid"

text \<open>
  \<open>bson.NewObjectId\<close> builds a fresh identifier from the clock, the machine id, the
  process id and a counter that is a global variable of the \<open>bson\<close> package, which it
  increments atomically. The state it reads and writes is made explicit: \<open>now\<close> is the
  clock's reading in seconds, \<open>objectIdCounter\<close> the package's counter.
\<close>

record bson_state =
  now :: "32 word"
  machineId :: "char \<times> char \<times> char"
  processId :: nat
  objectIdCounter :: "32 word"

definition byte :: "32 word \<Rightarrow> char" where
  "byte w = char_of (unat w)"

definition NewObjectId :: "bson_state \<Rightarrow> ObjectId \<times> bson_state" where
  "NewObjectId st =
     (let t = now st;
          (m0, m1, m2) = machineId st;
          i = objectIdCounter st + 1
      in ([byte (drop_bit 24 t), byte (drop_bit 16 t), byte (drop_bit 8 t), byte t,
           m0, m1, m2,
           char_of (processId st div 256), char_of (processId st),
           byte (drop_bit 16 i), byte (drop_bit 8 i), byte i],
          st\<lparr>objectIdCounter := i\<rparr>))"


section \<open>Object id validation\<close>

definition isIdCorrectLength :: "string \<Rightarrow> bool \<times> error option" where
  "isIdCorrectLength inputId =
     (if length inputId \<noteq> ID_LENGTH then (False, Some ErrIdBadLength) else (True, None))"

definition isValidHexString :: "string \<Rightarrow> bool \<times> error option" where
  "isValidHexString inputId =
     (if IsObjectIdHex inputId = False then (False, Some ErrIdNotHex) else (True, None))"

definition isValidId :: "string \<Rightarrow> bool \<times> error option" where
  "isValidId inputId =
     (case isIdCorrectLength inputId of
        (yes, err) \<Rightarrow>
          if yes = False then (False, err)
          else (case isValidHexString inputId of
                  (yes, err) \<Rightarrow> if yes = False then (False, err) else (True, None)))"


section \<open>Object id conversion\<close>

text \<open>
  \<open>GetObjectIdFromString\<close> returns a pair of an identifier and an error; on invalid
  input the identifier is a fresh one from \<open>bson.NewObjectId\<close>. The outer \<open>option\<close> is
  \<open>None\<close> where \<open>bson.ObjectIdHex\<close> would panic.
\<close>

definition GetObjectIdFromString ::
  "string \<Rightarrow> bson_state \<Rightarrow> (ObjectId \<times> error option) option \<times> bson_state" where
  "GetObjectIdFromString inputId st =
     (case isValidId inputId of
        (yes, err) \<Rightarrow>
          if yes = False then (case NewObjectId st of (fresh, st') \<Rightarrow> (Some (fresh, err), st'))
          else (case ObjectIdHex inputId of
                  None \<Rightarrow> (None, st)
                | Some oid \<Rightarrow> (Some (oid, None), st)))"

definition GetStringFromObjectId :: "ObjectId \<Rightarrow> string" where
  "GetStringFromObjectId input = Hex input"


section \<open>Query parameters\<close>

subsection \<open>net/http\<close>

text \<open>
  Of \<open>http.Request\<close> the package reads form values only. \<open>Form\<close> holds the parsed form
  (Go's \<open>url.Values\<close>, a map from a name to the list of its values), as \<open>ParseForm\<close>
  leaves it, and \<open>FormValue\<close> returns the first value of a name, or the empty string when
  there is none.
\<close>

record Request =
  Form :: "string \<rightharpoonup> string list"

definition FormValue :: "Request \<Rightarrow> string \<Rightarrow> string" where
  "FormValue r key =
     (case Form r key of
        None \<Rightarrow> []
      | Some vs \<Rightarrow> (case vs of [] \<Rightarrow> [] | v # rest \<Rightarrow> v))"

subsection \<open>strconv\<close>

text \<open>
  \<open>strconv.Atoi s\<close> is \<open>ParseInt s 10 0\<close>: an optional sign, then \<open>ParseUint\<close> over decimal
  digits with its overflow checks, then the range check for a signed \<open>int\<close> of \<open>intSize\<close>
  bits. Go returns a value and an error; the value next to an error is the one Go
  returns (0 for a syntax error, the nearest bound for a range error). The unsigned
  accumulator is a \<open>nat\<close> with the 64-bit overflow tests written out.
\<close>

datatype NumError = ErrSyntax | ErrRange

definition intSize :: nat where
  "intSize = 64"

definition maxUint64 :: nat where
  "maxUint64 = 2 ^ 64 - 1"

definition digit_of :: "char \<Rightarrow> nat option" where
  "digit_of c =
     (let n = (of_char c :: nat) in
      if of_char CHR ''0'' \<le> n \<and> n \<le> of_char CHR ''9'' then Some (n - of_char CHR ''0'')
      else if of_char CHR ''a'' \<le> n \<and> n \<le> of_char CHR ''z'' then Some (n - of_char CHR ''a'' + 10)
      else if of_char CHR ''A'' \<le> n \<and> n \<le> of_char CHR ''Z'' then Some (n - of_char CHR ''A'' + 10)
      else None)"

fun ParseUint_loop :: "nat \<Rightarrow> string \<Rightarrow> nat \<Rightarrow> nat \<times> NumError option" where
  "ParseUint_loop maxVal [] n = (n, None)"
| "ParseUint_loop maxVal (c # cs) n =
     (case digit_of c of
        None \<Rightarrow> (0, Some ErrSyntax)
      | Some d \<Rightarrow>
          if d \<ge> 10 then (0, Some ErrSyntax)
          else if n \<ge> maxUint64 div 10 + 1 then (maxVal, Some ErrRange)
          else (let n1 = n * 10 + d in
                if n1 > maxUint64 \<or> n1 > maxVal then (maxVal, Some ErrRange)
                else ParseUint_loop maxVal cs n1))"

definition ParseUint :: "string \<Rightarrow> nat \<times> NumError option" where
  "ParseUint s =
     (if s = [] then (0, Some ErrSyntax)
      else ParseUint_loop (2 ^ intSize - 1) s 0)"

definition ParseInt :: "string \<Rightarrow> int \<times> NumError option" where
  "ParseInt s =
     (case s of
        [] \<Rightarrow> (0, Some ErrSyntax)
      | c # cs \<Rightarrow>
          (let neg = (c = CHR ''-'');
               s' = (if c = CHR ''+'' \<or> c = CHR ''-'' then cs else s)
           in case ParseUint s' of
                (un, err) \<Rightarrow>
                  if err \<noteq> None \<and> err \<noteq> Some ErrRange then (0, err)
                  else (let cutoff = (2::nat) ^ (intSize - 1) in
                        if \<not> neg \<and> un \<ge> cutoff then (int cutoff - 1, Some ErrRange)
                        else if neg \<and> un > cutoff then (- int cutoff, Some ErrRange)
                        else (if neg then - int un else int un, None))))"

definition Atoi :: "string \<Rightarrow> int \<times> NumError option" where
  "Atoi s = ParseInt s"

subsection \<open>strings\<close>

text \<open>
  \<open>strings.Split s sep\<close> for a separator of one byte, which is what the package passes:
  cut at the first separator, keep the part before it, go on with the part after it, and
  end with what is left.
\<close>

fun IndexByte :: "string \<Rightarrow> char \<Rightarrow> nat option" where
  "IndexByte [] c = None"
| "IndexByte (x # xs) c =
     (if x = c then Some 0
      else (case IndexByte xs c of None \<Rightarrow> None | Some m \<Rightarrow> Some (Suc m)))"

function Split :: "string \<Rightarrow> char \<Rightarrow> string list" where
  "Split s sep =
     (case IndexByte s sep of
        None \<Rightarrow> [s]
      | Some m \<Rightarrow> take m s # Split (drop (m + 1) s) sep)"
  by pat_completeness auto
termination
proof (relation "measure (\<lambda>(s, sep). length s)")
  show "wf (measure (\<lambda>(s, sep). length s))"
    by simp
next
  fix s :: string and sep :: char and m :: nat
  assume found: "IndexByte s sep = Some m"
  have "\<And>k. IndexByte s sep = Some k \<Longrightarrow> k < length s"
    by (induction s) (auto split: if_splits option.splits)
  with found have "m < length s"
    by blast
  then show "((drop (m + 1) s, sep), (s, sep)) \<in> measure (\<lambda>(s, sep). length s)"
    by simp
qed

subsection \<open>Limit and Sort\<close>

definition Limit :: "Request \<Rightarrow> int" where
  "Limit r =
     (let limit = FormValue r ''limit'' in
      if length limit = 0 then LIMIT_DEFAULT_VALUE
      else if limit = ''none'' \<or> limit = ''all'' then LIMIT_RETURN_ALL
      else (case Atoi limit of
              (limitInt, err) \<Rightarrow>
                if err \<noteq> None then LIMIT_DEFAULT_VALUE else limitInt))"

text \<open>The last revision of \<open>Sort\<close>: many fields, split at the commas.\<close>

definition Sort :: "Request \<Rightarrow> string list" where
  "Sort r =
     (let sort = FormValue r ''sort'' in
      if length sort = 0 then [SORT_DEFAULT]
      else Split sort CHR '','')"

text \<open>The first revision of \<open>Sort\<close>: one field, returned as it came.\<close>

definition Sort_single :: "Request \<Rightarrow> string" where
  "Sort_single r =
     (let sort = FormValue r ''sort'' in
      if length sort = 0 then SORT_DEFAULT
      else sort)"


section \<open>Vocabulary of the specification\<close>

text \<open>
  A hexadecimal digit, in either case; the lowercase form of a character; the join of
  tokens with a separator between them; the decimal rendering of an integer; a sample
  state of the identifier generator; and the request whose form holds one value.
\<close>

definition hexdigit :: "char \<Rightarrow> bool" where
  "hexdigit c = (c \<in> set ''0123456789abcdefABCDEF'')"

definition lower :: "char \<Rightarrow> char" where
  "lower c =
     (if of_char CHR ''A'' \<le> (of_char c :: nat) \<and> (of_char c :: nat) \<le> of_char CHR ''Z''
      then char_of ((of_char c :: nat) + 32) else c)"

fun Join :: "string list \<Rightarrow> char \<Rightarrow> string" where
  "Join [] sep = []"
| "Join [t] sep = t"
| "Join (t # u # ts) sep = t @ sep # Join (u # ts) sep"

definition digit_char :: "nat \<Rightarrow> char" where
  "digit_char d = ''0123456789'' ! d"

function decimal :: "nat \<Rightarrow> string" where
  "decimal n = (if n < 10 then [digit_char n] else decimal (n div 10) @ [digit_char (n mod 10)])"
  by pat_completeness auto
termination
  by (relation "measure (\<lambda>n. n)") auto

definition Itoa :: "int \<Rightarrow> string" where
  "Itoa i = (if i < 0 then CHR ''-'' # decimal (nat (- i)) else decimal (nat i))"

definition st0 :: bson_state where
  "st0 = \<lparr>now = 1446422400, machineId = (CHR ''m'', CHR ''g'', CHR ''o''),
          processId = 4242, objectIdCounter = 7\<rparr>"

definition with_form :: "string \<Rightarrow> string \<Rightarrow> Request" where
  "with_form key v = \<lparr>Form = [key \<mapsto> [v]]\<rparr>"


section \<open>Hexadecimal encoding and decoding\<close>

declare Split.simps [simp del]
declare decimal.simps [simp del]

lemma char_eq_nat: "(c = d) = ((of_char c :: nat) = of_char d)"
  by simp

lemma hexdigit_nat:
  "hexdigit c \<longleftrightarrow> (48 \<le> (of_char c :: nat) \<and> (of_char c :: nat) \<le> 57)
     \<or> (97 \<le> (of_char c :: nat) \<and> (of_char c :: nat) \<le> 102)
     \<or> (65 \<le> (of_char c :: nat) \<and> (of_char c :: nat) \<le> 70)"
proof -
  have "hexdigit c \<longleftrightarrow> (of_char c :: nat) \<in>
      {48, 49, 50, 51, 52, 53, 54, 55, 56, 57, 97, 98, 99, 100, 101, 102, 65, 66, 67, 68, 69, 70}"
    unfolding hexdigit_def by (simp add: char_eq_nat [of c])
  also have "\<dots> \<longleftrightarrow> (48 \<le> (of_char c :: nat) \<and> (of_char c :: nat) \<le> 57)
     \<or> (97 \<le> (of_char c :: nat) \<and> (of_char c :: nat) \<le> 102)
     \<or> (65 \<le> (of_char c :: nat) \<and> (of_char c :: nat) \<le> 70)"
    by (simp only: insert_iff empty_iff) arith
  finally show ?thesis .
qed

lemma fromHexChar_None_iff: "fromHexChar c = None \<longleftrightarrow> \<not> hexdigit c"
  by (simp add: fromHexChar_def Let_def hexdigit_nat)

lemma hexdigit_iff: "hexdigit c \<longleftrightarrow> (\<exists>a. fromHexChar c = Some a)"
  using fromHexChar_None_iff [of c] by auto

lemma fromHexChar_lt: "fromHexChar c = Some a \<Longrightarrow> a < 16"
  by (auto simp: fromHexChar_def Let_def split: if_splits)

lemma fromHexChar_hextable: "a < 16 \<Longrightarrow> fromHexChar (hextable ! a) = Some a"
proof -
  assume "a < 16"
  then have "a = 0 \<or> a = 1 \<or> a = 2 \<or> a = 3 \<or> a = 4 \<or> a = 5 \<or> a = 6 \<or> a = 7 \<or> a = 8
      \<or> a = 9 \<or> a = 10 \<or> a = 11 \<or> a = 12 \<or> a = 13 \<or> a = 14 \<or> a = 15"
    by arith
  then show ?thesis
    by (elim disjE) (simp_all add: hextable_def fromHexChar_def)
qed

lemma hextable_fromHexChar: "fromHexChar c = Some a \<Longrightarrow> hextable ! a = lower c"
proof -
  assume h: "fromHexChar c = Some a"
  define n where "n = (of_char c :: nat)"
  from h have "hexdigit c"
    by (auto simp: hexdigit_iff)
  then have "n = 48 \<or> n = 49 \<or> n = 50 \<or> n = 51 \<or> n = 52 \<or> n = 53 \<or> n = 54 \<or> n = 55
      \<or> n = 56 \<or> n = 57 \<or> n = 97 \<or> n = 98 \<or> n = 99 \<or> n = 100 \<or> n = 101 \<or> n = 102
      \<or> n = 65 \<or> n = 66 \<or> n = 67 \<or> n = 68 \<or> n = 69 \<or> n = 70"
    unfolding hexdigit_nat n_def by arith
  then show ?thesis
    using h unfolding char_eq_nat [of "hextable ! a"] n_def
    by (elim disjE) (auto simp: hextable_def fromHexChar_def lower_def)
qed

lemma hextable_nth_hexdigit: "a < 16 \<Longrightarrow> hexdigit (hextable ! a)"
  using fromHexChar_hextable [of a] by (simp add: hexdigit_iff)

lemma lower_eq:
  "(lower c = d) =
     ((if 65 \<le> (of_char c :: nat) \<and> (of_char c :: nat) \<le> 90
       then (of_char c :: nat) + 32 else of_char c) = of_char d)"
proof -
  have "(lower c = d) = ((of_char (lower c) :: nat) = of_char d)"
    by simp
  also have "(of_char (lower c) :: nat) =
      (if 65 \<le> (of_char c :: nat) \<and> (of_char c :: nat) \<le> 90
       then (of_char c :: nat) + 32 else of_char c)"
    using nat_of_char_less_256 [of c] by (auto simp: lower_def)
  finally show ?thesis .
qed

lemma nibbles_less: "(of_char v :: nat) div 16 < 16" "(of_char v :: nat) mod 16 < 16"
  using nat_of_char_less_256 [of v] by arith+

lemma DecodeString_length: "DecodeString s = Inr d \<Longrightarrow> length s = 2 * length d"
  by (induction s arbitrary: d rule: DecodeString.induct)
     (auto split: option.splits sum.splits)

lemma DecodeString_ok_iff:
  "(\<exists>d. DecodeString s = Inr d) \<longleftrightarrow> even (length s) \<and> (\<forall>c\<in>set s. hexdigit c)"
  by (induction s rule: DecodeString.induct)
     (auto simp: hexdigit_iff split: option.splits sum.splits)

lemma EncodeToString_length: "length (EncodeToString x) = 2 * length x"
  by (induction x) auto

lemma EncodeToString_hexdigit: "c \<in> set (EncodeToString x) \<Longrightarrow> hexdigit c"
  by (induction x) (auto simp: hextable_nth_hexdigit nibbles_less)

lemma DecodeString_EncodeToString: "DecodeString (EncodeToString x) = Inr x"
proof (induction x)
  case Nil
  show ?case by simp
next
  case (Cons v x)
  have "char_of ((of_char v :: nat) div 16 * 16 + (of_char v :: nat) mod 16) = v"
    by simp
  with Cons show ?case
    by (simp add: fromHexChar_hextable nibbles_less)
qed

lemma EncodeToString_DecodeString:
  "DecodeString s = Inr d \<Longrightarrow> EncodeToString d = map lower s"
proof (induction s arbitrary: d rule: DecodeString.induct)
  case 1
  then show ?case by simp
next
  case (2 p)
  then show ?case by (simp split: option.splits)
next
  case (3 p q rest)
  from "3.prems" obtain a b d' where
    a: "fromHexChar p = Some a" and b: "fromHexChar q = Some b"
    and d': "DecodeString rest = Inr d'" and d: "d = char_of (a * 16 + b) # d'"
    by (auto split: option.splits sum.splits)
  have ab: "a < 16" "b < 16"
    using a b by (auto dest: fromHexChar_lt)
  then have v: "(of_char (char_of (a * 16 + b)) :: nat) = a * 16 + b"
    by simp
  have "EncodeToString d' = map lower rest"
    using "3.IH" a b d' by simp
  with ab show ?case
    by (simp add: d v hextable_fromHexChar [OF a] hextable_fromHexChar [OF b])
qed


section \<open>Validation and conversion of identifiers\<close>

lemma IsObjectIdHex_iff:
  "IsObjectIdHex s \<longleftrightarrow> length s = 24 \<and> (\<forall>c\<in>set s. hexdigit c)"
proof (cases "length s = 24")
  case True
  then have "even (length s)" by simp
  with True show ?thesis
    using DecodeString_ok_iff [of s]
    by (auto simp: IsObjectIdHex_def split: sum.splits)
next
  case False
  then show ?thesis by (simp add: IsObjectIdHex_def)
qed

lemma isValidId_bad_length:
  "length s \<noteq> 24 \<Longrightarrow> isValidId s = (False, Some ErrIdBadLength)"
  by (simp add: isValidId_def isIdCorrectLength_def ID_LENGTH_def)

lemma isValidId_not_hex:
  "length s = 24 \<Longrightarrow> \<not> (\<forall>c\<in>set s. hexdigit c) \<Longrightarrow> isValidId s = (False, Some ErrIdNotHex)"
  by (simp add: isValidId_def isIdCorrectLength_def isValidHexString_def ID_LENGTH_def
      IsObjectIdHex_iff)

lemma isValidId_ok:
  "length s = 24 \<Longrightarrow> \<forall>c\<in>set s. hexdigit c \<Longrightarrow> isValidId s = (True, None)"
  by (simp add: isValidId_def isIdCorrectLength_def isValidHexString_def ID_LENGTH_def
      IsObjectIdHex_iff)

lemma ObjectIdHex_ok:
  assumes "length s = 24" "\<forall>c\<in>set s. hexdigit c"
  shows "\<exists>x. ObjectIdHex s = Some x \<and> length x = 12 \<and> EncodeToString x = map lower s"
proof -
  from assms have "even (length s)" by simp
  with assms obtain d where d: "DecodeString s = Inr d"
    using DecodeString_ok_iff [of s] by blast
  then have "length d = 12"
    using DecodeString_length [OF d] assms by simp
  with d show ?thesis
    by (simp add: ObjectIdHex_def EncodeToString_DecodeString)
qed

lemma decode_valid:
  assumes "length s = 24" "\<forall>c\<in>set s. hexdigit c"
  shows "\<exists>x. GetObjectIdFromString s st = (Some (x, None), st)
           \<and> length x = 12 \<and> EncodeToString x = map lower s"
  using ObjectIdHex_ok [OF assms]
  by (auto simp: GetObjectIdFromString_def isValidId_ok [OF assms])

lemma decode_invalid:
  "isValidId s = (False, e) \<Longrightarrow>
     GetObjectIdFromString s st = (Some (fst (NewObjectId st), e), snd (NewObjectId st))"
  by (simp add: GetObjectIdFromString_def split: prod.splits)

lemma isValidId_cases:
  "(length s = 24 \<and> (\<forall>c\<in>set s. hexdigit c) \<and> isValidId s = (True, None))
   \<or> (\<not> (length s = 24 \<and> (\<forall>c\<in>set s. hexdigit c)) \<and> (\<exists>e. isValidId s = (False, Some e)))"
  using isValidId_ok [of s] isValidId_not_hex [of s] isValidId_bad_length [of s]
  by blast

text \<open>The generator: twelve bytes, the counter moved on by one, and never the same twice in a row.\<close>

lemma NewObjectId_length: "length (fst (NewObjectId st)) = 12"
  by (simp add: NewObjectId_def Let_def split: prod.splits)

lemma NewObjectId_nth: "fst (NewObjectId st) ! 11 = byte (objectIdCounter st + 1)"
  by (simp add: NewObjectId_def Let_def split: prod.splits)

lemma NewObjectId_counter:
  "snd (NewObjectId st) = st\<lparr>objectIdCounter := objectIdCounter st + 1\<rparr>"
  by (simp add: NewObjectId_def Let_def split: prod.splits)

lemma unat_Suc_mod: "unat ((w :: 32 word) + 1) mod 256 = (unat w + 1) mod 256"
proof -
  have d: "(256::nat) dvd 2 ^ 32"
    by (rule dvdI [where k = "2 ^ 24"]) simp
  have a: "unat (w + 1) = (unat w + 1) mod 2 ^ 32"
    by (simp add: unat_word_ariths)
  have "unat (w + 1) mod 256 = (unat w + 1) mod 2 ^ 32 mod 256"
    by (rule arg_cong [where f = "\<lambda>x. x mod 256", OF a])
  also have "\<dots> = (unat w + 1) mod 256"
    using d by (rule mod_mod_cancel)
  finally show ?thesis .
qed

lemma Suc_mod_neq: "((n::nat) + 1) mod 256 \<noteq> n mod 256"
proof -
  have "Suc n mod 256 = (if Suc (n mod 256) = 256 then 0 else Suc (n mod 256))"
    by (rule mod_Suc)
  then have "Suc n mod 256 \<noteq> n mod 256"
    by (cases "Suc (n mod 256) = 256") simp_all
  then show ?thesis
    by simp
qed

lemma byte_Suc: "byte (w + 1) \<noteq> byte w"
  unfolding byte_def char_of_quasi_inj unat_Suc_mod by (rule Suc_mod_neq)

lemma NewObjectId_fresh:
  "fst (NewObjectId (snd (NewObjectId st))) \<noteq> fst (NewObjectId st)"
proof
  assume "fst (NewObjectId (snd (NewObjectId st))) = fst (NewObjectId st)"
  then have "fst (NewObjectId (snd (NewObjectId st))) ! 11 = fst (NewObjectId st) ! 11"
    by (rule arg_cong)
  then have "byte ((objectIdCounter st + 1) + 1) = byte (objectIdCounter st + 1)"
    by (simp add: NewObjectId_nth NewObjectId_counter)
  then show False
    using byte_Suc [of "objectIdCounter st + 1"] by simp
qed


section \<open>Form values, splitting and integer parsing\<close>

lemma FormValue_with_form: "FormValue (with_form key v) k = (if k = key then v else [])"
  by (simp add: FormValue_def with_form_def)

lemma FormValue_absent: "Form r key = None \<Longrightarrow> FormValue r key = []"
  by (simp add: FormValue_def)

lemma IndexByte_None_iff: "IndexByte s c = None \<longleftrightarrow> c \<notin> set s"
  by (induction s) (auto split: option.splits)

lemma IndexByte_Some:
  "IndexByte s c = Some m \<Longrightarrow> s = take m s @ c # drop (Suc m) s \<and> c \<notin> set (take m s)"
  by (induction s arbitrary: m) (auto split: if_splits option.splits)

lemma IndexByte_append: "c \<notin> set t \<Longrightarrow> IndexByte (t @ c # u) c = Some (length t)"
  by (induction t) auto

lemma Split_None: "IndexByte s c = None \<Longrightarrow> Split s c = [s]"
  by (subst Split.simps) simp

lemma Split_Some:
  "IndexByte s c = Some m \<Longrightarrow> Split s c = take m s # Split (drop (Suc m) s) c"
  by (subst Split.simps) simp

lemma Split_not_Nil: "Split s c \<noteq> []"
  by (subst Split.simps) (simp split: option.splits)

lemma Join_Cons: "ts \<noteq> [] \<Longrightarrow> Join (t # ts) c = t @ c # Join ts c"
  by (cases ts) auto

lemma Join_Split: "Join (Split s c) c = s"
proof (induction s c rule: Split.induct)
  case (1 s sep)
  show ?case
  proof (cases "IndexByte s sep")
    case None
    then show ?thesis by (subst Split.simps) simp
  next
    case (Some m)
    have "Join (Split s sep) sep = take m s @ sep # Join (Split (drop (Suc m) s) sep) sep"
      using Some by (subst Split.simps) (simp add: Join_Cons Split_not_Nil)
    also have "\<dots> = take m s @ sep # drop (Suc m) s"
      using "1.IH" [OF Some] by simp
    also have "\<dots> = s"
      using IndexByte_Some [OF Some] by simp
    finally show ?thesis .
  qed
qed

lemma Split_no_sep: "t \<in> set (Split s c) \<Longrightarrow> c \<notin> set t"
proof (induction s c arbitrary: t rule: Split.induct)
  case (1 s sep)
  show ?case
  proof (cases "IndexByte s sep")
    case None
    with "1.prems" have "t = s" by (subst (asm) Split.simps) simp
    with None show ?thesis by (simp add: IndexByte_None_iff)
  next
    case (Some m)
    with "1.prems" have "t = take m s \<or> t \<in> set (Split (drop (Suc m) s) sep)"
      by (subst (asm) Split.simps) simp
    then show ?thesis
      using "1.IH" [OF Some] IndexByte_Some [OF Some] by auto
  qed
qed

lemma Split_Join:
  "ts \<noteq> [] \<Longrightarrow> \<forall>t\<in>set ts. c \<notin> set t \<Longrightarrow> Split (Join ts c) c = ts"
proof (induction ts c rule: Join.induct)
  case (1 sep)
  then show ?case by simp
next
  case (2 t sep)
  then have "IndexByte t sep = None" by (simp add: IndexByte_None_iff)
  then show ?case by (subst Split.simps) simp
next
  case (3 t u ts sep)
  then have "IndexByte (t @ sep # Join (u # ts) sep) sep = Some (length t)"
    by (simp add: IndexByte_append)
  moreover have "Split (Join (u # ts) sep) sep = u # ts"
    using 3 by simp
  ultimately show ?case
    by (subst Split.simps) simp
qed

lemma Join_Nil_iff: "Join ts c = [] \<longleftrightarrow> ts = [] \<or> ts = [[]]"
  by (induction ts c rule: Join.induct) auto

lemma digit_cases:
  "d < 10 \<Longrightarrow> d = 0 \<or> d = 1 \<or> d = 2 \<or> d = 3 \<or> d = 4 \<or> d = 5 \<or> d = 6 \<or> d = 7 \<or> d = 8 \<or> d = (9::nat)"
  by arith

lemma digit_of_digit_char: "d < 10 \<Longrightarrow> digit_of (digit_char d) = Some d"
  by (drule digit_cases, elim disjE) (simp_all add: digit_of_def digit_char_def)

lemma digit_char_not_sign:
  "d < 10 \<Longrightarrow> digit_char d \<noteq> CHR ''+'' \<and> digit_char d \<noteq> CHR ''-''
     \<and> digit_char d \<noteq> CHR ''n'' \<and> digit_char d \<noteq> CHR ''a''"
  by (drule digit_cases, elim disjE) (simp_all add: digit_char_def)

lemma ParseUint_loop_append:
  "ParseUint_loop M (xs @ ys) n =
     (case ParseUint_loop M xs n of
        (v, None) \<Rightarrow> ParseUint_loop M ys v
      | (v, Some e) \<Rightarrow> (v, Some e))"
  by (induction xs arbitrary: n) (auto simp: Let_def split: option.splits)

lemma ParseUint_loop_digit:
  assumes "d < 10" "n * 10 + d \<le> M" "M \<le> maxUint64"
  shows "ParseUint_loop M [digit_char d] n = (n * 10 + d, None)"
proof -
  from assms have "n * 10 \<le> maxUint64" by simp
  then have "n \<le> maxUint64 div 10" by arith
  with assms show ?thesis
    by (simp add: digit_of_digit_char Let_def)
qed

lemma ParseUint_loop_decimal:
  "n \<le> M \<Longrightarrow> M \<le> maxUint64 \<Longrightarrow> ParseUint_loop M (decimal n) 0 = (n, None)"
proof (induction n rule: decimal.induct)
  case (1 n)
  show ?case
  proof (cases "n < 10")
    case True
    then have "decimal n = [digit_char n]" by (subst decimal.simps) simp
    with True 1 show ?thesis
      using ParseUint_loop_digit [of n 0 M] by simp
  next
    case False
    then have d: "decimal n = decimal (n div 10) @ [digit_char (n mod 10)]"
      by (subst decimal.simps) simp
    have "n div 10 \<le> M" using "1.prems" by arith
    then have ih: "ParseUint_loop M (decimal (n div 10)) 0 = (n div 10, None)"
      using "1.IH" [OF False] "1.prems" by simp
    have "ParseUint_loop M [digit_char (n mod 10)] (n div 10) = (n div 10 * 10 + n mod 10, None)"
      using "1.prems" by (intro ParseUint_loop_digit) auto
    then show ?thesis
      by (simp add: d ParseUint_loop_append ih)
  qed
qed

lemma decimal_hd: "\<exists>d cs. d < 10 \<and> decimal n = digit_char d # cs"
proof (induction n rule: decimal.induct)
  case (1 n)
  show ?case
  proof (cases "n < 10")
    case True
    then show ?thesis by (subst decimal.simps) auto
  next
    case False
    with "1.IH" obtain d cs where "d < 10" "decimal (n div 10) = digit_char d # cs"
      by blast
    with False show ?thesis by (subst decimal.simps) auto
  qed
qed

lemma ParseUint_decimal: "n < 2 ^ 64 \<Longrightarrow> ParseUint (decimal n) = (n, None)"
proof -
  assume n: "n < 2 ^ 64"
  obtain d cs where "decimal n = digit_char d # cs" using decimal_hd by blast
  then have "decimal n \<noteq> []" by simp
  moreover have "ParseUint_loop (2 ^ 64 - 1) (decimal n) 0 = (n, None)"
    using n by (intro ParseUint_loop_decimal) (auto simp: maxUint64_def)
  ultimately show ?thesis
    by (simp add: ParseUint_def intSize_def)
qed

lemma Atoi_Itoa:
  assumes "- (2 ^ 63) \<le> i" "i < 2 ^ 63"
  shows "Atoi (Itoa i) = (i, None)"
proof (cases "i < 0")
  case True
  define m where "m = nat (- i)"
  have m: "m \<le> 2 ^ 63" "i = - int m" using True assms by (auto simp: m_def)
  then have "m < 2 ^ 64" by simp
  then have "ParseUint (decimal m) = (m, None)" by (rule ParseUint_decimal)
  with True m show ?thesis
    by (simp add: Atoi_def Itoa_def ParseInt_def Let_def intSize_def flip: m_def)
next
  case False
  define m where "m = nat i"
  have m: "m < 2 ^ 63" "i = int m" using False assms by (auto simp: m_def)
  then have "m < 2 ^ 64" by simp
  then have p: "ParseUint (decimal m) = (m, None)" by (rule ParseUint_decimal)
  obtain d cs where d: "d < 10" "decimal m = digit_char d # cs" using decimal_hd by blast
  with False m p digit_char_not_sign [OF d(1)] show ?thesis
    by (simp add: Atoi_def Itoa_def ParseInt_def Let_def intSize_def flip: m_def)
qed

lemma Itoa_not_keyword: "Itoa i \<noteq> [] \<and> Itoa i \<noteq> ''none'' \<and> Itoa i \<noteq> ''all''"
proof (cases "i < 0")
  case True
  then show ?thesis by (simp add: Itoa_def)
next
  case False
  obtain d cs where d: "d < 10" "decimal (nat i) = digit_char d # cs"
    using decimal_hd by blast
  with False digit_char_not_sign [OF d(1)] show ?thesis
    by (auto simp: Itoa_def)
qed

lemmas Atoi_eval = Atoi_def ParseInt_def ParseUint_def digit_of_def intSize_def maxUint64_def
  Let_def

text \<open>Some readings of the parser: signs, leading zeros, the bounds of a 64-bit \<open>int\<close>.\<close>

lemma Atoi_examples:
  "Atoi ''10'' = (10, None)"
  "Atoi ''-0'' = (0, None)"
  "Atoi ''+7'' = (7, None)"
  "Atoi ''007'' = (7, None)"
  "Atoi ''+'' = (0, Some ErrSyntax)"
  "Atoi '' 1'' = (0, Some ErrSyntax)"
  "Atoi ''1_000'' = (0, Some ErrSyntax)"
  "Atoi ''0x10'' = (0, Some ErrSyntax)"
  "Atoi ''9223372036854775807'' = (9223372036854775807, None)"
  "Atoi ''9223372036854775808'' = (9223372036854775807, Some ErrRange)"
  "Atoi ''-9223372036854775808'' = (- 9223372036854775808, None)"
  "Atoi ''-9223372036854775809'' = (- 9223372036854775808, Some ErrRange)"
  by (simp_all add: Atoi_eval)

text \<open>Without a comma in the input the two revisions of \<open>Sort\<close> agree.\<close>

lemma Sort_single_agrees:
  "CHR '','' \<notin> set (FormValue r ''sort'') \<Longrightarrow> Sort r = [Sort_single r]"
  by (simp add: Sort_def Sort_single_def Let_def Split_None IndexByte_None_iff)



section \<open>Claims about the identifier codec\<close>

text \<open>
  C1. Encoding and decoding are inverse to each other. An identifier of twelve bytes,
  which is what the generator and the decoder produce, is encoded as 24 lowercase
  hexadecimal characters that decode to the same identifier, without a panic and without
  touching the generator; so it is for every identifier the generator returns. A string
  of 24 hexadecimal characters decodes without error to twelve bytes, and encoding the
  result gives the string back in lowercase.
\<close>

theorem encode_decode_inverse:
  "(length x = 12 \<longrightarrow>
      GetObjectIdFromString (GetStringFromObjectId x) st = (Some (x, None), st)
      \<and> length (GetStringFromObjectId x) = 24
      \<and> map lower (GetStringFromObjectId x) = GetStringFromObjectId x)
   \<and> GetObjectIdFromString (GetStringFromObjectId (fst (NewObjectId g))) st
       = (Some (fst (NewObjectId g), None), st)
   \<and> (length s = 24 \<and> (\<forall>c\<in>set s. hexdigit c) \<longrightarrow>
        (\<exists>y. GetObjectIdFromString s st = (Some (y, None), st)
           \<and> length y = 12 \<and> GetStringFromObjectId y = map lower s))"
proof -
  have round: "GetObjectIdFromString (GetStringFromObjectId x) st = (Some (x, None), st)
      \<and> length (GetStringFromObjectId x) = 24
      \<and> map lower (GetStringFromObjectId x) = GetStringFromObjectId x"
    if x: "length x = 12" for x
  proof -
    let ?e = "EncodeToString x"
    have len: "length ?e = 24"
      using x by (simp add: EncodeToString_length)
    have hex: "\<forall>c\<in>set ?e. hexdigit c"
      by (simp add: EncodeToString_hexdigit)
    have dec: "ObjectIdHex ?e = Some x"
      using x by (simp add: ObjectIdHex_def DecodeString_EncodeToString)
    have "GetObjectIdFromString ?e st = (Some (x, None), st)"
      by (simp add: GetObjectIdFromString_def isValidId_ok [OF len hex] dec)
    moreover have "map lower ?e = ?e"
      using ObjectIdHex_ok [OF len hex] dec by simp
    ultimately show ?thesis
      using len by (simp add: GetStringFromObjectId_def Hex_def)
  qed
  have inverse: "\<exists>y. GetObjectIdFromString s st = (Some (y, None), st)
           \<and> length y = 12 \<and> GetStringFromObjectId y = map lower s"
    if "length s = 24 \<and> (\<forall>c\<in>set s. hexdigit c)"
    using that decode_valid [of s st] by (auto simp: GetStringFromObjectId_def Hex_def)
  from round [of x] round [OF NewObjectId_length [of g]] inverse show ?thesis
    by blast
qed

theorem encode_decode_inverse_witness:
  "length ''mongoutils12'' = 12
   \<and> GetStringFromObjectId ''mongoutils12'' = ''6d6f6e676f7574696c733132''
   \<and> GetObjectIdFromString ''6d6f6e676f7574696c733132'' st0 = (Some (''mongoutils12'', None), st0)
   \<and> length ''6D6F6E676F7574696C733132'' = 24
   \<and> list_all hexdigit ''6D6F6E676F7574696C733132''
   \<and> (\<exists>y. GetObjectIdFromString ''6D6F6E676F7574696C733132'' st0 = (Some (y, None), st0)
          \<and> GetStringFromObjectId y = ''6d6f6e676f7574696c733132'')"
proof -
  have e: "GetStringFromObjectId ''mongoutils12'' = ''6d6f6e676f7574696c733132''"
    by (simp add: GetStringFromObjectId_def Hex_def hextable_def)
  have h: "\<forall>c\<in>set ''6D6F6E676F7574696C733132''. hexdigit c"
    by (simp add: hexdigit_def)
  have l: "map lower ''6D6F6E676F7574696C733132'' = ''6d6f6e676f7574696c733132''"
    by (simp add: lower_eq)
  have n: "length ''mongoutils12'' = 12" "length ''6D6F6E676F7574696C733132'' = 24"
    by simp_all
  note inv = encode_decode_inverse [of "''mongoutils12''" st0 st0 "''6D6F6E676F7574696C733132''"]
  from inv n(1)
  have a: "GetObjectIdFromString ''6d6f6e676f7574696c733132'' st0 = (Some (''mongoutils12'', None), st0)"
    unfolding e by blast
  from inv n(2) h
  have b: "\<exists>y. GetObjectIdFromString ''6D6F6E676F7574696C733132'' st0 = (Some (y, None), st0)
          \<and> GetStringFromObjectId y = ''6d6f6e676f7574696c733132''"
    unfolding l by blast
  from h have "list_all hexdigit ''6D6F6E676F7574696C733132''"
    unfolding list_all_iff .
  with n e a b show ?thesis
    by blast
qed

text \<open>
  C2. A string whose length is not 24 is refused with \<open>ErrIdBadLength\<close>, whatever its
  characters are: the length is checked first. The identifier returned next to the error
  is a fresh one from the generator.
\<close>

theorem decode_bad_length:
  "length s \<noteq> 24 \<Longrightarrow>
     fst (GetObjectIdFromString s st) = Some (fst (NewObjectId st), Some ErrIdBadLength)"
  by (simp add: decode_invalid [OF isValidId_bad_length])

theorem decode_bad_length_witness:
  "length ''not hex, too short'' \<noteq> 24
   \<and> \<not> hexdigit CHR ''n''
   \<and> fst (GetObjectIdFromString ''not hex, too short'' st0)
       = Some (fst (NewObjectId st0), Some ErrIdBadLength)"
  using decode_bad_length [of "''not hex, too short''" st0]
  by (simp add: hexdigit_def)

text \<open>
  C3. A string of exactly 24 characters, one of which is not a hexadecimal digit, is
  refused with \<open>ErrIdNotHex\<close>.
\<close>

theorem decode_not_hex:
  "length s = 24 \<Longrightarrow> \<exists>c\<in>set s. \<not> hexdigit c \<Longrightarrow>
     fst (GetObjectIdFromString s st) = Some (fst (NewObjectId st), Some ErrIdNotHex)"
  by (simp add: decode_invalid [OF isValidId_not_hex])

theorem decode_not_hex_witness:
  "length ''6d6f6e676f7574696c73313g'' = 24
   \<and> (\<exists>c\<in>set ''6d6f6e676f7574696c73313g''. \<not> hexdigit c)
   \<and> fst (GetObjectIdFromString ''6d6f6e676f7574696c73313g'' st0)
       = Some (fst (NewObjectId st0), Some ErrIdNotHex)"
proof -
  have h: "\<exists>c\<in>set ''6d6f6e676f7574696c73313g''. \<not> hexdigit c"
    by (simp add: hexdigit_def)
  show ?thesis
    using decode_not_hex [of "''6d6f6e676f7574696c73313g''" st0] h by simp
qed

text \<open>
  C8. The claim is that two calls of the decoder on the same string return the same
  identifier and touch no global state. On an invalid string the decoder returns a fresh
  identifier from \<open>bson.NewObjectId\<close>, which moves the generator's counter: a second call
  returns another identifier.
\<close>

theorem decode_twice_differs:
  "fst (GetObjectIdFromString ''xyz'' (snd (GetObjectIdFromString ''xyz'' st0)))
     \<noteq> fst (GetObjectIdFromString ''xyz'' st0)
   \<and> objectIdCounter (snd (GetObjectIdFromString ''xyz'' st0)) \<noteq> objectIdCounter st0"
proof -
  have v: "isValidId ''xyz'' = (False, Some ErrIdBadLength)"
    by (rule isValidId_bad_length) simp
  show ?thesis
    using NewObjectId_fresh [of st0]
    by (simp add: decode_invalid [OF v] NewObjectId_counter st0_def)
qed

text \<open>
  C8, as the code has it. Whether the decoder succeeds, and with which error it fails,
  depends on the string alone. On a valid string the identifier depends on the string
  alone too, and the generator is left as it was. On an invalid string the identifier
  is a fresh one: the counter of the generator is moved on by one, and a second call
  returns a different identifier. The encoder is a function of its argument.
\<close>

theorem decode_determinism:
  "map_option snd (fst (GetObjectIdFromString s st))
     = map_option snd (fst (GetObjectIdFromString s st'))
   \<and> (length s = 24 \<and> (\<forall>c\<in>set s. hexdigit c) \<longrightarrow>
        fst (GetObjectIdFromString s st) = fst (GetObjectIdFromString s st')
        \<and> snd (GetObjectIdFromString s st) = st)
   \<and> (\<not> (length s = 24 \<and> (\<forall>c\<in>set s. hexdigit c)) \<longrightarrow>
        fst (GetObjectIdFromString s (snd (GetObjectIdFromString s st)))
          \<noteq> fst (GetObjectIdFromString s st)
        \<and> objectIdCounter (snd (GetObjectIdFromString s st)) = objectIdCounter st + 1)"
proof -
  consider (valid) "length s = 24" "\<forall>c\<in>set s. hexdigit c" "isValidId s = (True, None)"
    | (invalid) e where "\<not> (length s = 24 \<and> (\<forall>c\<in>set s. hexdigit c))"
        "isValidId s = (False, Some e)"
    using isValidId_cases [of s] by blast
  then show ?thesis
  proof cases
    case valid
    obtain x where "\<And>t. GetObjectIdFromString s t = (Some (x, None), t)"
      using ObjectIdHex_ok [OF valid(1,2)]
      by (auto simp: GetObjectIdFromString_def valid(3))
    with valid show ?thesis by simp
  next
    case invalid
    then show ?thesis
      using NewObjectId_fresh [of st]
      by (auto simp: decode_invalid [OF invalid(2)] NewObjectId_counter)
  qed
qed

theorem decode_determinism_witness:
  "length ''6D6F6E676F7574696C733132'' = 24
   \<and> list_all hexdigit ''6D6F6E676F7574696C733132''
   \<and> fst (GetObjectIdFromString ''6D6F6E676F7574696C733132'' st0)
       = fst (GetObjectIdFromString ''6D6F6E676F7574696C733132'' (st0\<lparr>objectIdCounter := 99\<rparr>))
   \<and> snd (GetObjectIdFromString ''6D6F6E676F7574696C733132'' st0) = st0
   \<and> \<not> (length ''xyz'' = 24 \<and> (\<forall>c\<in>set ''xyz''. hexdigit c))
   \<and> fst (GetObjectIdFromString ''xyz'' (snd (GetObjectIdFromString ''xyz'' st0)))
        \<noteq> fst (GetObjectIdFromString ''xyz'' st0)
   \<and> objectIdCounter (snd (GetObjectIdFromString ''xyz'' st0)) = objectIdCounter st0 + 1"
proof -
  have h: "\<forall>c\<in>set ''6D6F6E676F7574696C733132''. hexdigit c"
    by (simp add: hexdigit_def)
  show ?thesis
    using decode_determinism [of "''6D6F6E676F7574696C733132''" st0 "st0\<lparr>objectIdCounter := 99\<rparr>"]
      decode_determinism [of "''xyz''" st0 st0] h
    by (simp add: list_all_iff)
qed


section \<open>Claims about the query parameters\<close>

text \<open>
  C4. \<open>Limit\<close> returns the default 5 when the form value is absent or empty, the
  sentinel 0 for the literals \<open>none\<close> and \<open>all\<close>, and otherwise the integer that
  \<open>strconv.Atoi\<close> reads, as it is: the decimal rendering of every integer of the \<open>int\<close>
  range, zero and the negative ones included, gives that integer back. Whatever
  \<open>strconv.Atoi\<close> refuses gives the default 5. No path fails.
\<close>

theorem Limit_policy:
  "(FormValue r ''limit'' = [] \<longrightarrow> Limit r = 5)
   \<and> (FormValue r ''limit'' = ''none'' \<or> FormValue r ''limit'' = ''all'' \<longrightarrow> Limit r = 0)
   \<and> (- (2 ^ 63) \<le> i \<and> i < 2 ^ 63 \<and> FormValue r ''limit'' = Itoa i \<longrightarrow> Limit r = i)
   \<and> (FormValue r ''limit'' \<notin> {[], ''none'', ''all''}
        \<and> Atoi (FormValue r ''limit'') = (n, None) \<longrightarrow> Limit r = n)
   \<and> (FormValue r ''limit'' \<notin> {[], ''none'', ''all''}
        \<and> snd (Atoi (FormValue r ''limit'')) \<noteq> None \<longrightarrow> Limit r = 5)"
proof (intro conjI impI)
  assume "FormValue r ''limit'' = []"
  then show "Limit r = 5"
    by (simp add: Limit_def LIMIT_DEFAULT_VALUE_def)
next
  assume "FormValue r ''limit'' = ''none'' \<or> FormValue r ''limit'' = ''all''"
  then show "Limit r = 0"
    by (auto simp: Limit_def LIMIT_RETURN_ALL_def)
next
  assume h: "- (2 ^ 63) \<le> i \<and> i < 2 ^ 63 \<and> FormValue r ''limit'' = Itoa i"
  then have "Atoi (Itoa i) = (i, None)"
    by (simp add: Atoi_Itoa)
  with h Itoa_not_keyword [of i] show "Limit r = i"
    by (simp add: Limit_def)
next
  assume "FormValue r ''limit'' \<notin> {[], ''none'', ''all''}
        \<and> Atoi (FormValue r ''limit'') = (n, None)"
  then show "Limit r = n"
    by (simp add: Limit_def)
next
  assume "FormValue r ''limit'' \<notin> {[], ''none'', ''all''}
        \<and> snd (Atoi (FormValue r ''limit'')) \<noteq> None"
  then show "Limit r = 5"
    by (auto simp: Limit_def LIMIT_DEFAULT_VALUE_def split: prod.splits)
qed

theorem Limit_policy_witness:
  "Limit (with_form ''sort'' ''name'') = 5
   \<and> Limit (with_form ''limit'' []) = 5
   \<and> Limit (with_form ''limit'' ''none'') = 0
   \<and> Limit (with_form ''limit'' ''all'') = 0
   \<and> Itoa 10 = ''10'' \<and> Limit (with_form ''limit'' ''10'') = 10
   \<and> Itoa (- 3) = ''-3'' \<and> Limit (with_form ''limit'' ''-3'') = - 3
   \<and> Atoi ''+7'' = (7, None) \<and> Limit (with_form ''limit'' ''+7'') = 7
   \<and> snd (Atoi ''abc'') \<noteq> None \<and> Limit (with_form ''limit'' ''abc'') = 5
   \<and> snd (Atoi ''None'') \<noteq> None \<and> Limit (with_form ''limit'' ''None'') = 5"
proof -
  have i: "Itoa 10 = ''10''" "Itoa (- 3) = ''-3''"
    by (simp_all add: Itoa_def decimal.simps digit_char_def)
  have a: "Atoi ''+7'' = (7, None)" "snd (Atoi ''abc'') \<noteq> None" "snd (Atoi ''None'') \<noteq> None"
    by (simp_all add: Atoi_eval)
  have "Limit (with_form ''sort'' ''name'') = 5"
    using Limit_policy [of "with_form ''sort'' ''name''" 0 0]
    by (simp add: FormValue_with_form)
  moreover have "Limit (with_form ''limit'' []) = 5"
    using Limit_policy [of "with_form ''limit'' []" 0 0]
    by (simp add: FormValue_with_form)
  moreover have "Limit (with_form ''limit'' ''none'') = 0"
    using Limit_policy [of "with_form ''limit'' ''none''" 0 0]
    by (simp add: FormValue_with_form)
  moreover have "Limit (with_form ''limit'' ''all'') = 0"
    using Limit_policy [of "with_form ''limit'' ''all''" 0 0]
    by (simp add: FormValue_with_form)
  moreover have "Limit (with_form ''limit'' ''10'') = 10"
    using Limit_policy [of "with_form ''limit'' ''10''" 10 0] i
    by (simp add: FormValue_with_form)
  moreover have "Limit (with_form ''limit'' ''-3'') = - 3"
    using Limit_policy [of "with_form ''limit'' ''-3''" "- 3" 0] i
    by (simp add: FormValue_with_form)
  moreover have "Limit (with_form ''limit'' ''+7'') = 7"
    using Limit_policy [of "with_form ''limit'' ''+7''" 0 7] a
    by (simp add: FormValue_with_form)
  moreover have "Limit (with_form ''limit'' ''abc'') = 5"
    using Limit_policy [of "with_form ''limit'' ''abc''" 0 0] a
    by (simp add: FormValue_with_form)
  moreover have "Limit (with_form ''limit'' ''None'') = 5"
    using Limit_policy [of "with_form ''limit'' ''None''" 0 0] a
    by (simp add: FormValue_with_form)
  ultimately show ?thesis
    using i a by simp
qed

text \<open>
  C9. The literal \<open>0\<close> is read as the integer 0, which is the sentinel
  \<open>LIMIT_RETURN_ALL\<close>: \<open>Limit\<close> returns for it what it returns for \<open>none\<close> and \<open>all\<close>.
\<close>

theorem Limit_zero_is_return_all:
  "FormValue r ''limit'' = ''0'' \<Longrightarrow>
     Limit r = LIMIT_RETURN_ALL
     \<and> Limit r = Limit (with_form ''limit'' ''none'')
     \<and> Limit r = Limit (with_form ''limit'' ''all'')"
  by (simp add: Limit_def FormValue_with_form Atoi_eval LIMIT_RETURN_ALL_def)

theorem Limit_zero_is_return_all_witness:
  "FormValue (with_form ''limit'' ''0'') ''limit'' = ''0''
   \<and> Limit (with_form ''limit'' ''0'') = 0
   \<and> Limit (with_form ''limit'' ''0'') = Limit (with_form ''limit'' ''none'')
   \<and> Limit (with_form ''limit'' ''0'') = Limit (with_form ''limit'' ''all'')"
  using Limit_zero_is_return_all [of "with_form ''limit'' ''0''"]
  by (simp add: FormValue_with_form LIMIT_RETURN_ALL_def)

text \<open>
  C5. For a non-empty form value \<open>Sort\<close> returns the split of the value at the commas:
  the returned tokens, joined again with commas, are the value, character for character
  (nothing is trimmed), in the order of the value, and no token contains a comma.
\<close>

theorem Sort_splits_in_order:
  "FormValue r ''sort'' \<noteq> [] \<Longrightarrow>
     Sort r = Split (FormValue r ''sort'') CHR '',''
     \<and> Join (Sort r) CHR '','' = FormValue r ''sort''
     \<and> (\<forall>t\<in>set (Sort r). CHR '','' \<notin> set t)"
  by (simp add: Sort_def Join_Split Split_no_sep)

theorem Sort_splits_in_order_witness:
  "FormValue (with_form ''sort'' ''birthday,-username'') ''sort'' \<noteq> []
   \<and> Sort (with_form ''sort'' ''birthday,-username'') = [''birthday'', ''-username'']
   \<and> Join [''birthday'', ''-username''] CHR '','' = ''birthday,-username''
   \<and> FormValue (with_form ''sort'' '' a, -b ,c'') ''sort'' \<noteq> []
   \<and> Sort (with_form ''sort'' '' a, -b ,c'') = ['' a'', '' -b '', ''c'']"
proof -
  have s: "Split ''birthday,-username'' CHR '','' = [''birthday'', ''-username'']"
    "Split '' a, -b ,c'' CHR '','' = ['' a'', '' -b '', ''c'']"
    by (simp_all add: Split_None Split_Some)
  show ?thesis
    using Sort_splits_in_order [of "with_form ''sort'' ''birthday,-username''"]
      Sort_splits_in_order [of "with_form ''sort'' '' a, -b ,c''"] s
    by (simp add: FormValue_with_form)
qed

text \<open>
  C6. The claim is that a leading \<open>-\<close> of a token is stripped from the returned field
  name. \<open>Sort\<close> returns strings, not pairs of a field and a direction, and it returns the
  token \<open>-username\<close> with its \<open>-\<close>.
\<close>

theorem Sort_dash_not_stripped:
  "Sort (with_form ''sort'' ''-username'') = [''-username'']
   \<and> Sort (with_form ''sort'' ''-username'') \<noteq> [''username'']"
  by (simp add: Sort_def FormValue_with_form Split_None)

text \<open>
  C6, as the code has it. \<open>Sort\<close> returns every token as it stands: for tokens without
  a comma, joined with commas into a non-empty form value, the result is the list of
  these tokens, a leading \<open>-\<close> included. The \<open>-\<close> is left for the driver's \<open>Sort\<close> to
  read as descending order.
\<close>

theorem Sort_keeps_tokens:
  "Join ts CHR '','' \<noteq> [] \<Longrightarrow> \<forall>t\<in>set ts. CHR '','' \<notin> set t \<Longrightarrow>
     FormValue r ''sort'' = Join ts CHR '','' \<Longrightarrow> Sort r = ts"
  by (auto simp: Sort_def Split_Join Join_Nil_iff)

theorem Sort_keeps_tokens_witness:
  "Join [''-a'', ''-b'', ''c''] CHR '','' = ''-a,-b,c''
   \<and> ''-a,-b,c'' \<noteq> []
   \<and> list_all (\<lambda>t. CHR '','' \<notin> set t) [''-a'', ''-b'', ''c'']
   \<and> FormValue (with_form ''sort'' ''-a,-b,c'') ''sort'' = ''-a,-b,c''
   \<and> Sort (with_form ''sort'' ''-a,-b,c'') = [''-a'', ''-b'', ''c'']"
  using Sort_keeps_tokens [of "[''-a'', ''-b'', ''c'']" "with_form ''sort'' ''-a,-b,c''"]
  by (simp add: FormValue_with_form)

text \<open>
  C7. When the form value is absent or empty, \<open>Sort\<close> returns the one default field
  \<open>_id\<close>, without a \<open>-\<close>, that is in ascending order.
\<close>

theorem Sort_default:
  "FormValue r ''sort'' = [] \<Longrightarrow> Sort r = [''_id'']"
  by (simp add: Sort_def SORT_DEFAULT_def)

theorem Sort_default_witness:
  "FormValue (with_form ''limit'' ''10'') ''sort'' = []
   \<and> Sort (with_form ''limit'' ''10'') = [''_id'']
   \<and> FormValue (with_form ''sort'' []) ''sort'' = []
   \<and> Sort (with_form ''sort'' []) = [''_id'']"
  using Sort_default [of "with_form ''limit'' ''10''"] Sort_default [of "with_form ''sort'' []"]
  by (simp add: FormValue_with_form)

text \<open>
  C10. \<open>Sort\<close> never returns the empty list: an empty form value gives the default
  field, and a split has at least one token.
\<close>

theorem Sort_not_empty: "Sort r \<noteq> []"
  by (simp add: Sort_def Let_def Split_not_Nil)

end
